theory Spec2Isabelle
  imports Main
begin

section \<open>Data model of \<^verbatim>\<open>turing_machine.py\<close>\<close>

text \<open>
  States, symbols and directions are Python strings.  The transition table is the dict
  handed to \<^verbatim>\<open>TuringMachine.__init__\<close>; a direction is whatever string the
  table holds, since nothing restricts it to \<^verbatim>\<open>'L'\<close> and \<^verbatim>\<open>'R'\<close>.
\<close>

type_synonym state = string
type_synonym symbol = string
type_synonym direction = string

datatype action = Accept | Reject

datatype error = IndexError | AssertionError | ValueError

record machine =
  blank_symbol :: symbol
  transitions :: "(state \<times> symbol) \<rightharpoonup> (state \<times> symbol \<times> direction)"
  start_state :: state
  reject_state :: state
  states_to_actions :: "state \<rightharpoonup> action"

text \<open>
  \<^verbatim>\<open>__init__\<close> (lines 71-80) stores its arguments and builds the two-entry dict
  \<^verbatim>\<open>{accept_state: 'Accept', reject_state: 'Reject'}\<close>; when both keys are equal
  the later entry wins, as with the map update below.  It has no raise and no assert.
\<close>

definition TuringMachine ::
  "((state \<times> symbol) \<rightharpoonup> (state \<times> symbol \<times> direction)) \<Rightarrow> state \<Rightarrow> state \<Rightarrow> state \<Rightarrow> symbol \<Rightarrow> machine" where
  "TuringMachine table start_st accept_st reject_st blank =
     \<lparr>blank_symbol = blank, transitions = table, start_state = start_st,
      reject_state = reject_st,
      states_to_actions = [accept_st \<mapsto> Accept, reject_st \<mapsto> Reject]\<rparr>"

text \<open>The keyword defaults of \<^verbatim>\<open>__init__\<close>: q0, qa, qr and the empty string.\<close>

definition TuringMachine_default ::
  "((state \<times> symbol) \<rightharpoonup> (state \<times> symbol \<times> direction)) \<Rightarrow> machine" where
  "TuringMachine_default table = TuringMachine table ''q0'' ''qa'' ''qr'' ''''"

text \<open>
  The input of \<^verbatim>\<open>run\<close> is a string (each character one symbol) or a list of
  symbols.
\<close>

datatype input = Str string | Seq "symbol list"

fun symbols_of :: "input \<Rightarrow> symbol list" where
  "symbols_of (Str s) = map (\<lambda>c. [c]) s"
| "symbols_of (Seq xs) = xs"

subsection \<open>The store: Python list objects\<close>

text \<open>
  \<^verbatim>\<open>left_hand_side\<close> and \<^verbatim>\<open>right_hand_side\<close> are list objects, changed in
  place by \<^verbatim>\<open>insert(0, x)\<close> and \<^verbatim>\<open>pop(0)\<close>, and every yielded dict holds
  references to them.  A heap maps addresses to list contents; \<open>fresh\<close> is the next
  unused address.
\<close>

type_synonym addr = nat

record heap =
  cells :: "addr \<Rightarrow> symbol list"
  fresh :: addr

definition empty_heap :: heap where
  "empty_heap = \<lparr>cells = (\<lambda>_. []), fresh = 0\<rparr>"

definition new_list :: "symbol list \<Rightarrow> heap \<Rightarrow> addr \<times> heap" where
  "new_list xs h = (fresh h, h\<lparr>cells := (cells h)(fresh h := xs), fresh := Suc (fresh h)\<rparr>)"

definition insert0 :: "addr \<Rightarrow> symbol \<Rightarrow> heap \<Rightarrow> heap" where
  "insert0 a x h = h\<lparr>cells := (cells h)(a := x # cells h a)\<rparr>"

definition pop0 :: "addr \<Rightarrow> heap \<Rightarrow> error + (symbol \<times> heap)" where
  "pop0 a h = (case cells h a of
                 [] \<Rightarrow> Inl IndexError
               | x # xs \<Rightarrow> Inr (x, h\<lparr>cells := (cells h)(a := xs)\<rparr>))"

subsection \<open>Configurations\<close>

text \<open>
  A \<open>snapshot\<close> is the dict yielded at lines 149-154: the state and the symbol are
  strings, the two sides are references to the run's list objects.  A \<open>config\<close> is what
  a caller reads from such a dict in a given heap (what \<^verbatim>\<open>==\<close> compares in the
  tests).
\<close>

record snapshot =
  snap_state :: state
  snap_left :: addr
  snap_symbol :: symbol
  snap_right :: addr

record config =
  state :: state
  left_hand_side :: "symbol list"
  symbol :: symbol
  right_hand_side :: "symbol list"

definition read_config :: "heap \<Rightarrow> snapshot \<Rightarrow> config" where
  "read_config h d =
     \<lparr>state = snap_state d, left_hand_side = cells h (snap_left d),
      symbol = snap_symbol d, right_hand_side = cells h (snap_right d)\<rparr>"

type_synonym observation = "action option \<times> snapshot"

section \<open>The generator \<^verbatim>\<open>run\<close>\<close>

text \<open>
  The local variables of a generator suspended at the \<^verbatim>\<open>yield\<close>, and the three
  stages of a generator object: created (body not yet entered), suspended at the yield,
  closed (returned after \<^verbatim>\<open>break\<close>).
\<close>

record frame =
  cur_state :: state
  left_ref :: addr
  cur_symbol :: symbol
  right_ref :: addr
  cur_action :: "action option"

datatype generator = Created input | Suspended frame | Closed

text \<open>
  \<^verbatim>\<open>self.transitions.get((state, symbol), (self.reject_state, symbol, 'R'))\<close>,
  lines 162-165.
\<close>

definition transitions_get :: "machine \<Rightarrow> state \<Rightarrow> symbol \<Rightarrow> state \<times> symbol \<times> direction" where
  "transitions_get m q s =
     (case transitions m (q, s) of
        Some t \<Rightarrow> t
      | None \<Rightarrow> (reject_state m, s, ''R''))"

text \<open>
  \<^verbatim>\<open>direction in 'LR'\<close> on strings is the substring test; the substrings of
  \<^verbatim>\<open>'LR'\<close> are the empty string, L, R and LR.
\<close>

definition in_LR :: "direction \<Rightarrow> bool" where
  "in_LR d = (d = '''' \<or> d = ''L'' \<or> d = ''R'' \<or> d = ''LR'')"

text \<open>
  The head of the loop, lines 146-155: classify the state, yield the pair of the action
  and a new dict, and suspend.
\<close>

definition loop_head ::
  "machine \<Rightarrow> state \<Rightarrow> addr \<Rightarrow> symbol \<Rightarrow> addr \<Rightarrow> heap
     \<Rightarrow> error + (observation option \<times> generator \<times> heap)" where
  "loop_head m q l s r h =
     (let a = states_to_actions m q in
      Inr (Some (a, \<lparr>snap_state = q, snap_left = l, snap_symbol = s, snap_right = r\<rparr>),
           Suspended \<lparr>cur_state = q, left_ref = l, cur_symbol = s, right_ref = r,
                      cur_action = a\<rparr>,
           h))"

text \<open>
  One \<^verbatim>\<open>next()\<close> on the generator.  The result \<open>None\<close> is StopIteration.
  From \<open>Created\<close> the body runs lines 124-141 and reaches the first yield; from
  \<open>Suspended\<close> it resumes after the yield: lines 158-183, then the loop head again.
\<close>

fun gen_next ::
  "machine \<Rightarrow> generator \<Rightarrow> heap \<Rightarrow> error + (observation option \<times> generator \<times> heap)" where
  "gen_next m (Created inp) h =
     (let (l, h1) = new_list [blank_symbol m] h;
          input' = (if symbols_of inp = [] then [blank_symbol m] else symbols_of inp)
      in (case input' of
            [] \<Rightarrow> Inl IndexError
          | s # rest \<Rightarrow>
              (let (r, h2) = new_list rest h1
               in loop_head m (start_state m) l s r h2)))"
| "gen_next m (Suspended f) h =
     (if cur_action f \<noteq> None then Inr (None, Closed, h)
      else
        (case transitions_get m (cur_state f) (cur_symbol f) of
           (q, s, direction) \<Rightarrow>
             if direction = ''R'' then
               (let h1 = insert0 (left_ref f) s h
                in (case pop0 (right_ref f) h1 of
                      Inr (s', h2) \<Rightarrow> loop_head m q (left_ref f) s' (right_ref f) h2
                    | Inl e \<Rightarrow>
                        if e = IndexError
                        then loop_head m q (left_ref f) (blank_symbol m) (right_ref f) h1
                        else Inl e))
             else if cells h (left_ref f) \<noteq> [] then
               (let h1 = insert0 (right_ref f) s h
                in (case pop0 (left_ref f) h1 of
                      Inr (s', h2) \<Rightarrow> loop_head m q (left_ref f) s' (right_ref f) h2
                    | Inl e \<Rightarrow> Inl e))
             else if in_LR direction then loop_head m q (left_ref f) s (right_ref f) h
             else Inl AssertionError))"
| "gen_next m Closed h = Inr (None, Closed, h)"

section \<open>Bounded queries\<close>

text \<open>
  \<^verbatim>\<open>list(islice(gen, stop))\<close>: islice refuses a negative stop with ValueError
  before anything is pulled; otherwise it calls \<^verbatim>\<open>next\<close> at most \<open>stop\<close> times
  and ends early on StopIteration.  After the last item it does not resume the generator.
  It also refuses a stop above \<^verbatim>\<open>sys.maxsize\<close> with ValueError;
  \<open>sys_maxsize\<close> is the value of a 64-bit CPython, \<open>2\<^sup>6\<^sup>3 - 1\<close>.
\<close>

definition sys_maxsize :: int where
  "sys_maxsize = 9223372036854775807"

fun pull ::
  "machine \<Rightarrow> nat \<Rightarrow> generator \<Rightarrow> heap \<Rightarrow> error + (observation list \<times> generator \<times> heap)" where
  "pull m 0 g h = Inr ([], g, h)"
| "pull m (Suc n) g h =
     (case gen_next m g h of
        Inl e \<Rightarrow> Inl e
      | Inr (None, g', h') \<Rightarrow> Inr ([], g', h')
      | Inr (Some ob, g', h') \<Rightarrow>
          (case pull m n g' h' of
             Inl e \<Rightarrow> Inl e
           | Inr (obs, rest) \<Rightarrow> Inr (ob # obs, rest)))"

definition list_islice ::
  "machine \<Rightarrow> generator \<Rightarrow> int \<Rightarrow> heap \<Rightarrow> error + (observation list \<times> generator \<times> heap)" where
  "list_islice m g stop h =
     (if stop < 0 \<or> sys_maxsize < stop then Inl ValueError else pull m (nat stop) g h)"

text \<open>
  \<^verbatim>\<open>accepts\<close>, lines 185-194.  The optional argument is \<open>None\<close> when the caller
  does not pass \<^verbatim>\<open>step_limit\<close>.  \<^verbatim>\<open>[-1]\<close> on the empty list raises IndexError.
  The result \<open>Some True\<close> is True, \<open>Some False\<close> is False, \<open>None\<close> is Python's None.
\<close>

definition accepts :: "machine \<Rightarrow> input \<Rightarrow> int option \<Rightarrow> heap \<Rightarrow> error + bool option" where
  "accepts m inp step_limit_arg h =
     (let step_limit = (case step_limit_arg of None \<Rightarrow> 100 | Some n \<Rightarrow> n)
      in (case list_islice m (Created inp) step_limit h of
            Inl e \<Rightarrow> Inl e
          | Inr (obs, _) \<Rightarrow>
              if obs = [] then Inl IndexError
              else (case fst (last obs) of
                      Some a \<Rightarrow> Inr (Some (a = Accept))
                    | None \<Rightarrow> Inr None)))"

text \<open>\<^verbatim>\<open>rejects\<close>, lines 196-200: the keyword arguments go to \<^verbatim>\<open>accepts\<close>.\<close>

definition rejects :: "machine \<Rightarrow> input \<Rightarrow> int option \<Rightarrow> heap \<Rightarrow> error + bool option" where
  "rejects m inp kwargs h =
     (case accepts m inp kwargs h of
        Inl e \<Rightarrow> Inl e
      | Inr None \<Rightarrow> Inr None
      | Inr (Some b) \<Rightarrow> Inr (Some (\<not> b)))"

text \<open>
  A caller that looks at each observation when it arrives, as \<^verbatim>\<open>test_go_left\<close>
  does with \<^verbatim>\<open>next(execution) == (...)\<close>: the dict is read in the heap of that
  moment.
\<close>

fun observe ::
  "machine \<Rightarrow> nat \<Rightarrow> generator \<Rightarrow> heap \<Rightarrow> error + (action option \<times> config) list" where
  "observe m 0 g h = Inr []"
| "observe m (Suc n) g h =
     (case gen_next m g h of
        Inl e \<Rightarrow> Inl e
      | Inr (None, g', h') \<Rightarrow> Inr []
      | Inr (Some (a, d), g', h') \<Rightarrow>
          (case observe m n g' h' of
             Inl e \<Rightarrow> Inl e
           | Inr vs \<Rightarrow> Inr ((a, read_config h' d) # vs)))"

section \<open>The machines of the tests\<close>

text \<open>The table of \<^verbatim>\<open>test_turing_machine.py\<close> (lines 10-43) and \<^verbatim>\<open>w_hash_w.py\<close>.\<close>

definition w_hash_w_table :: "(state \<times> symbol) \<rightharpoonup> (state \<times> symbol \<times> direction)" where
  "w_hash_w_table = map_of
     [((''q0'', ''#''), (''End'', ''#'', ''R'')),
      ((''End'', ''''), (''qa'', '''', ''R'')),
      ((''q0'', ''0''), (''FindDelimiter0'', ''X'', ''R'')),
      ((''FindDelimiter0'', ''#''), (''Check0'', ''#'', ''R'')),
      ((''Check0'', ''0''), (''FindLeftmost'', ''X'', ''L'')),
      ((''q0'', ''1''), (''FindDelimiter1'', ''X'', ''R'')),
      ((''FindDelimiter1'', ''#''), (''Check1'', ''#'', ''R'')),
      ((''Check1'', ''1''), (''FindLeftmost'', ''X'', ''L'')),
      ((''FindLeftmost'', ''0''), (''FindLeftmost'', ''0'', ''L'')),
      ((''FindLeftmost'', ''1''), (''FindLeftmost'', ''1'', ''L'')),
      ((''FindLeftmost'', ''X''), (''FindLeftmost'', ''X'', ''L'')),
      ((''FindLeftmost'', ''#''), (''FindLeftmost'', ''#'', ''L'')),
      ((''FindLeftmost'', ''''), (''FindNext'', '''', ''R'')),
      ((''FindNext'', ''X''), (''FindNext'', ''X'', ''R'')),
      ((''FindNext'', ''0''), (''FindDelimiter0'', ''X'', ''R'')),
      ((''FindNext'', ''1''), (''FindDelimiter1'', ''X'', ''R'')),
      ((''FindNext'', ''#''), (''End'', ''#'', ''R'')),
      ((''FindDelimiter0'', ''0''), (''FindDelimiter0'', ''0'', ''R'')),
      ((''FindDelimiter0'', ''1''), (''FindDelimiter0'', ''1'', ''R'')),
      ((''FindDelimiter1'', ''0''), (''FindDelimiter1'', ''0'', ''R'')),
      ((''FindDelimiter1'', ''1''), (''FindDelimiter1'', ''1'', ''R'')),
      ((''Check0'', ''X''), (''Check0'', ''X'', ''R'')),
      ((''Check1'', ''X''), (''Check1'', ''X'', ''R'')),
      ((''End'', ''X''), (''End'', ''X'', ''R''))]"

definition w_hash_w :: machine where
  "w_hash_w = TuringMachine_default w_hash_w_table"

text \<open>The table of \<^verbatim>\<open>test_go_left\<close> (line 76).\<close>

definition go_left_table :: "(state \<times> symbol) \<rightharpoonup> (state \<times> symbol \<times> direction)" where
  "go_left_table = [(''q0'', '''') \<mapsto> (''q0'', '''', ''L'')]"

definition go_left :: machine where
  "go_left = TuringMachine_default go_left_table"

section \<open>The run on values\<close>

text \<open>
  Proof device: the same loop on list values instead of list objects.  \<open>delta\<close> is the
  loop body after the yield (lines 162-183), \<open>seed\<close> the first configuration (lines
  124-141), \<open>resume\<close> the observations of \<open>n\<close> further calls of
  \<^verbatim>\<open>next\<close> on a generator suspended at a configuration.  The lemmas below relate
  them to \<open>gen_next\<close> and \<open>observe\<close>.
\<close>

definition delta :: "machine \<Rightarrow> config \<Rightarrow> error + config" where
  "delta m c =
     (case transitions_get m (state c) (symbol c) of
        (q, s, d) \<Rightarrow>
          if d = ''R'' then
            Inr \<lparr>state = q, left_hand_side = s # left_hand_side c,
                 symbol = (case right_hand_side c of [] \<Rightarrow> blank_symbol m | x # _ \<Rightarrow> x),
                 right_hand_side = (case right_hand_side c of [] \<Rightarrow> [] | _ # xs \<Rightarrow> xs)\<rparr>
          else (case left_hand_side c of
                  x # xs \<Rightarrow> Inr \<lparr>state = q, left_hand_side = xs, symbol = x,
                                right_hand_side = s # right_hand_side c\<rparr>
                | [] \<Rightarrow> if in_LR d
                        then Inr \<lparr>state = q, left_hand_side = [], symbol = s,
                                  right_hand_side = right_hand_side c\<rparr>
                        else Inl AssertionError))"

fun resume :: "machine \<Rightarrow> nat \<Rightarrow> config \<Rightarrow> error + (action option \<times> config) list" where
  "resume m 0 c = Inr []"
| "resume m (Suc n) c =
     (if states_to_actions m (state c) \<noteq> None then Inr []
      else (case delta m c of
              Inl e \<Rightarrow> Inl e
            | Inr c' \<Rightarrow>
                (case resume m n c' of
                   Inl e \<Rightarrow> Inl e
                 | Inr vs \<Rightarrow> Inr ((states_to_actions m (state c'), c') # vs))))"

definition seed :: "machine \<Rightarrow> input \<Rightarrow> config" where
  "seed m inp =
     \<lparr>state = start_state m, left_hand_side = [blank_symbol m],
      symbol = (case symbols_of inp of [] \<Rightarrow> blank_symbol m | x # _ \<Rightarrow> x),
      right_hand_side = (case symbols_of inp of [] \<Rightarrow> [] | _ # xs \<Rightarrow> xs)\<rparr>"

definition frame_config :: "heap \<Rightarrow> frame \<Rightarrow> config" where
  "frame_config h f =
     \<lparr>state = cur_state f, left_hand_side = cells h (left_ref f),
      symbol = cur_symbol f, right_hand_side = cells h (right_ref f)\<rparr>"

definition snapshot_of :: "frame \<Rightarrow> snapshot" where
  "snapshot_of f =
     \<lparr>snap_state = cur_state f, snap_left = left_ref f,
      snap_symbol = cur_symbol f, snap_right = right_ref f\<rparr>"

definition frame_ok :: "machine \<Rightarrow> frame \<Rightarrow> bool" where
  "frame_ok m f = (left_ref f \<noteq> right_ref f \<and> cur_action f = states_to_actions m (cur_state f))"


text \<open>
  The tables the docstring of the class describes: every direction is \<^verbatim>\<open>'L'\<close>
  or \<^verbatim>\<open>'R'\<close> (the Direction type of the data model).
\<close>

definition directions_ok :: "machine \<Rightarrow> bool" where
  "directions_ok m =
     (\<forall>k q s d. transitions m k = Some (q, s, d) \<longrightarrow> d = ''L'' \<or> d = ''R'')"


text \<open>
  The action of the last observation of \<open>k + 1\<close> calls of \<^verbatim>\<open>next\<close>, the
  first of which yields the configuration \<open>c\<close>.
\<close>

fun final_action :: "machine \<Rightarrow> nat \<Rightarrow> config \<Rightarrow> error + action option" where
  "final_action m 0 c = Inr (states_to_actions m (state c))"
| "final_action m (Suc k) c =
     (if states_to_actions m (state c) \<noteq> None then Inr (states_to_actions m (state c))
      else (case delta m c of
              Inl e \<Rightarrow> Inl e
            | Inr c' \<Rightarrow> final_action m k c'))"

text \<open>
  A caller that first collects the observations, as \<^verbatim>\<open>list(islice(run, n))\<close> in
  \<^verbatim>\<open>accepts\<close> does, and reads the dicts afterwards: every dict is read in the heap
  the pulls leave behind.
\<close>

definition reread ::
  "machine \<Rightarrow> nat \<Rightarrow> generator \<Rightarrow> heap \<Rightarrow> error + (action option \<times> config) list" where
  "reread m n g h =
     (case pull m n g h of
        Inl e \<Rightarrow> Inl e
      | Inr (obs, g', h') \<Rightarrow> Inr (map (\<lambda>(a, d). (a, read_config h' d)) obs))"

text \<open>
  The observations with the two sides of every configuration replaced by those of the last
  one.
\<close>

definition latest_sides :: "(action option \<times> config) list \<Rightarrow> (action option \<times> config) list" where
  "latest_sides vs =
     map (\<lambda>(a, c). (a, c\<lparr>left_hand_side := left_hand_side (snd (last vs)),
                          right_hand_side := right_hand_side (snd (last vs))\<rparr>)) vs"

text \<open>
  A snapshot that agrees with a configuration on state and symbol and refers to the list
  objects \<open>l\<close> and \<open>r\<close>.
\<close>

definition shares :: "addr \<Rightarrow> addr \<Rightarrow> observation \<Rightarrow> action option \<times> config \<Rightarrow> bool" where
  "shares l r ob v =
     (ob = (fst v, \<lparr>snap_state = state (snd v), snap_left = l,
                    snap_symbol = symbol (snd v), snap_right = r\<rparr>))"

text \<open>A table with a direction that is neither L nor R.\<close>

definition wrong_direction_table :: "(state \<times> symbol) \<rightharpoonup> (state \<times> symbol \<times> direction)" where
  "wrong_direction_table = [(''q0'', '''') \<mapsto> (''q0'', '''', ''X'')]"

definition wrong_direction :: machine where
  "wrong_direction = TuringMachine_default wrong_direction_table"

text \<open>
  The first configuration of the w#w machine on an input without symbols: state q0, one
  blank on the left, a blank under the head, nothing on the right.
\<close>

definition blank_start :: config where
  "blank_start = \<lparr>state = ''q0'', left_hand_side = [''''], symbol = '''', right_hand_side = []\<rparr>"

section \<open>Lemmas: the generator and the run on values\<close>

lemma read_snapshot_of: "read_config h (snapshot_of f) = frame_config h f"
  by (simp add: read_config_def snapshot_of_def frame_config_def)

lemma gen_next_halted:
  "cur_action f \<noteq> None \<Longrightarrow> gen_next m (Suspended f) h = Inr (None, Closed, h)"
  by simp

lemma gen_next_raises:
  assumes "frame_ok m f" "cur_action f = None" "delta m (frame_config h f) = Inl e"
  shows "gen_next m (Suspended f) h = Inl e"
  using assms
  by (auto simp: delta_def frame_config_def frame_ok_def insert0_def pop0_def loop_head_def
           split: prod.splits if_splits list.splits)

lemma gen_next_moves:
  assumes "frame_ok m f" "cur_action f = None" "delta m (frame_config h f) = Inr c"
  shows "\<exists>f' h'. gen_next m (Suspended f) h
                   = Inr (Some (states_to_actions m (state c), snapshot_of f'), Suspended f', h')
                 \<and> frame_ok m f' \<and> frame_config h' f' = c
                 \<and> left_ref f' = left_ref f \<and> right_ref f' = right_ref f
                 \<and> fresh h' = fresh h
                 \<and> (\<forall>a. a \<noteq> left_ref f \<longrightarrow> a \<noteq> right_ref f \<longrightarrow> cells h' a = cells h a)"
  using assms
  by (auto simp: delta_def frame_config_def frame_ok_def insert0_def pop0_def loop_head_def
                 snapshot_of_def Let_def
           split: prod.splits if_splits list.splits)

lemma gen_next_created:
  "\<exists>f' h'. gen_next m (Created inp) h
             = Inr (Some (states_to_actions m (start_state m), snapshot_of f'), Suspended f', h')
           \<and> frame_ok m f' \<and> frame_config h' f' = seed m inp
           \<and> left_ref f' = fresh h \<and> right_ref f' = Suc (fresh h)"
  by (auto simp: new_list_def loop_head_def snapshot_of_def frame_ok_def frame_config_def
                 seed_def Let_def split: list.splits)

lemma observe_resume:
  "frame_ok m f \<Longrightarrow> observe m n (Suspended f) h = resume m n (frame_config h f)"
proof (induction n arbitrary: f h)
  case 0
  show ?case by simp
next
  case (Suc n)
  show ?case
  proof (cases "cur_action f")
    case (Some a)
    with Suc.prems show ?thesis by (auto simp: frame_ok_def frame_config_def)
  next
    case None
    then have act: "states_to_actions m (state (frame_config h f)) = None"
      using Suc.prems by (simp add: frame_ok_def frame_config_def)
    show ?thesis
    proof (cases "delta m (frame_config h f)")
      case (Inl e)
      from gen_next_raises [OF Suc.prems None Inl] Inl act show ?thesis
        by (simp del: gen_next.simps)
    next
      case (Inr c)
      from gen_next_moves [OF Suc.prems None Inr] obtain f' h' where
        step: "gen_next m (Suspended f) h
                 = Inr (Some (states_to_actions m (state c), snapshot_of f'), Suspended f', h')"
        and ok: "frame_ok m f'" and cfg: "frame_config h' f' = c"
        by blast
      from Suc.IH [OF ok, of h'] cfg step Inr act show ?thesis
        by (simp del: gen_next.simps add: read_snapshot_of split: sum.splits)
    qed
  qed
qed

lemma observe_created:
  "observe m (Suc n) (Created inp) h =
     (case resume m n (seed m inp) of
        Inl e \<Rightarrow> Inl e
      | Inr vs \<Rightarrow> Inr ((states_to_actions m (start_state m), seed m inp) # vs))"
proof -
  from gen_next_created [of m inp h] obtain f' h' where
    step: "gen_next m (Created inp) h
             = Inr (Some (states_to_actions m (start_state m), snapshot_of f'), Suspended f', h')"
    and ok: "frame_ok m f'" and cfg: "frame_config h' f' = seed m inp"
    by blast
  from observe_resume [OF ok, of n h'] cfg step show ?thesis
    by (simp del: gen_next.simps add: read_snapshot_of split: sum.splits)
qed

lemma loop_head_Inr:
  "loop_head m q l s r h =
     Inr (Some (states_to_actions m q,
                \<lparr>snap_state = q, snap_left = l, snap_symbol = s, snap_right = r\<rparr>),
          Suspended \<lparr>cur_state = q, left_ref = l, cur_symbol = s, right_ref = r,
                     cur_action = states_to_actions m q\<rparr>, h)"
  by (simp add: loop_head_def Let_def)

lemma gen_next_shape:
  "gen_next m g h = Inr (Some ob, g', h') \<Longrightarrow> \<exists>f'. g' = Suspended f' \<and> cur_action f' = fst ob"
  by (cases g)
     (auto simp: loop_head_Inr new_list_def insert0_def pop0_def Let_def
           split: prod.splits if_splits list.splits sum.splits)

lemma gen_next_stop:
  "gen_next m (Suspended f) h = Inr (None, g', h') \<Longrightarrow> cur_action f \<noteq> None"
  by (auto simp: loop_head_Inr insert0_def pop0_def Let_def
           split: prod.splits if_splits list.splits sum.splits)

lemma pull_Continue_full:
  "pull m n (Suspended f) h = Inr (obs, g', h') \<Longrightarrow> fst ob0 = cur_action f
     \<Longrightarrow> fst (last (ob0 # obs)) = None \<Longrightarrow> length obs = n"
proof (induction n arbitrary: f h obs ob0)
  case 0
  then show ?case by simp
next
  case (Suc n)
  show ?case
  proof (cases "gen_next m (Suspended f) h")
    case (Inl e)
    with Suc.prems show ?thesis by (simp del: gen_next.simps)
  next
    case (Inr r)
    obtain x g1 h1 where r: "r = (x, g1, h1)" by (cases r) auto
    show ?thesis
    proof (cases x)
      case None
      with Inr r have "cur_action f \<noteq> None" by (auto dest: gen_next_stop simp del: gen_next.simps)
      moreover from Inr r None Suc.prems(1) have "obs = []" by (simp del: gen_next.simps)
      ultimately show ?thesis using Suc.prems by simp
    next
      case (Some ob)
      with Inr r obtain f1 where g1: "g1 = Suspended f1" and a1: "fst ob = cur_action f1"
        by (auto dest: gen_next_shape simp del: gen_next.simps)
      from Inr r Some Suc.prems(1) obtain obs1 where
        p1: "pull m n g1 h1 = Inr (obs1, g', h')" and obs: "obs = ob # obs1"
        by (auto simp del: gen_next.simps split: sum.splits)
      from Suc.prems(3) obs have "fst (last (ob # obs1)) = None" by simp
      from Suc.IH [OF p1 [unfolded g1] a1 this] obs show ?thesis by simp
    qed
  qed
qed

lemma gen_next_error:
  assumes "gen_next m g h = Inl e"
  shows "e = AssertionError
         \<and> (\<exists>f q s d. g = Suspended f
               \<and> transitions m (cur_state f, cur_symbol f) = Some (q, s, d)
               \<and> d \<noteq> ''L'' \<and> d \<noteq> ''R'')"
proof (cases g)
  case (Created inp)
  with gen_next_created [of m inp h] assms show ?thesis by auto
next
  case (Suspended f)
  obtain q s d where t: "transitions_get m (cur_state f) (cur_symbol f) = (q, s, d)"
    by (cases "transitions_get m (cur_state f) (cur_symbol f)") auto
  from assms Suspended t have e: "e = AssertionError" and r: "d \<noteq> ''R''" and l: "\<not> in_LR d"
    by (auto simp: loop_head_Inr insert0_def pop0_def Let_def split: if_splits list.splits)
  from l have "d \<noteq> ''L''" by (auto simp: in_LR_def)
  moreover from t r have "transitions m (cur_state f, cur_symbol f) = Some (q, s, d)"
    by (auto simp: transitions_get_def split: option.splits)
  ultimately show ?thesis using e r Suspended by blast
next
  case Closed
  with assms show ?thesis by simp
qed

lemma pull_error:
  "pull m n g h = Inl e \<Longrightarrow> e = AssertionError \<and> \<not> directions_ok m"
proof (induction n arbitrary: g h)
  case 0
  then show ?case by simp
next
  case (Suc n)
  show ?case
  proof (cases "gen_next m g h")
    case (Inl e')
    with Suc.prems have "e' = e" by (simp del: gen_next.simps)
    with gen_next_error [OF Inl] show ?thesis unfolding directions_ok_def by blast
  next
    case (Inr r)
    obtain x g1 h1 where r: "r = (x, g1, h1)" by (cases r) auto
    show ?thesis
    proof (cases x)
      case None
      with Inr r Suc.prems show ?thesis by (simp del: gen_next.simps)
    next
      case (Some ob)
      with Inr r Suc.prems have "pull m n g1 h1 = Inl e"
        by (auto simp del: gen_next.simps split: sum.splits prod.splits)
      then show ?thesis by (rule Suc.IH)
    qed
  qed
qed

lemma pull_length:
  "pull m n g h = Inr (obs, r) \<Longrightarrow> length obs \<le> n"
proof (induction n arbitrary: g h obs)
  case 0
  then show ?case by simp
next
  case (Suc n)
  show ?case
  proof (cases "gen_next m g h")
    case (Inl e)
    with Suc.prems show ?thesis by (simp del: gen_next.simps)
  next
    case (Inr r1)
    obtain x g1 h1 where r1: "r1 = (x, g1, h1)" by (cases r1) auto
    show ?thesis
    proof (cases x)
      case None
      with Inr r1 Suc.prems show ?thesis by (auto simp del: gen_next.simps)
    next
      case (Some ob)
      with Inr r1 Suc.prems obtain obs1 where
        "pull m n g1 h1 = Inr (obs1, r)" and "obs = ob # obs1"
        by (auto simp del: gen_next.simps split: sum.splits)
      with Suc.IH [of g1 h1 obs1] show ?thesis by simp
    qed
  qed
qed

lemma pull_error_late:
  assumes "pull m n (Created inp) h = Inl e"
  shows "2 \<le> n"
proof (cases n)
  case 0
  with assms show ?thesis by simp
next
  case (Suc k)
  show ?thesis
  proof (cases k)
    case 0
    from gen_next_created [of m inp h] obtain ob f1 h1 where
      "gen_next m (Created inp) h = Inr (Some ob, Suspended f1, h1)" by blast
    with assms Suc 0 show ?thesis by (simp del: gen_next.simps)
  next
    case (Suc j)
    with \<open>n = Suc k\<close> show ?thesis by simp
  qed
qed

lemma accepts_run:
  assumes "1 \<le> n" and "n \<le> sys_maxsize"
  shows "(\<exists>obs g' h'. list_islice m (Created inp) n h = Inr (obs, g', h')
            \<and> obs \<noteq> [] \<and> int (length obs) \<le> n
            \<and> accepts m inp (Some n) h =
                Inr (case fst (last obs) of
                       Some Accept \<Rightarrow> Some True
                     | Some Reject \<Rightarrow> Some False
                     | None \<Rightarrow> None)
            \<and> (fst (last obs) = None \<longrightarrow> int (length obs) = n))
         \<or> (list_islice m (Created inp) n h = Inl AssertionError
             \<and> accepts m inp (Some n) h = Inl AssertionError
             \<and> \<not> directions_ok m)"
proof -
  from assms(1) obtain k where n: "nat n = Suc k" by (cases "nat n") auto
  have isl0: "list_islice m (Created inp) n h = pull m (Suc k) (Created inp) h"
    using assms n by (simp add: list_islice_def del: pull.simps)
  from gen_next_created [of m inp h] obtain f1 h1 where
    first: "gen_next m (Created inp) h
              = Inr (Some (states_to_actions m (start_state m), snapshot_of f1), Suspended f1, h1)"
    by blast
  let ?ob = "(states_to_actions m (start_state m), snapshot_of f1)"
  show ?thesis
  proof (cases "pull m k (Suspended f1) h1")
    case (Inl e)
    with first have p: "pull m (Suc k) (Created inp) h = Inl e"
      by (simp del: gen_next.simps)
    from pull_error [OF p] have e: "e = AssertionError" and bad: "\<not> directions_ok m" by auto
    from isl0 p e have isl: "list_islice m (Created inp) n h = Inl AssertionError" by simp
    then have "accepts m inp (Some n) h = Inl AssertionError" by (simp add: accepts_def)
    with isl bad show ?thesis by blast
  next
    case (Inr r)
    obtain obs1 g' h' where r: "r = (obs1, g', h')" by (cases r) auto
    with Inr have rest: "pull m k (Suspended f1) h1 = Inr (obs1, g', h')" by simp
    from pull_length [OF rest] have len: "length obs1 \<le> k" .
    have a1: "fst ?ob = cur_action f1"
      using first by (auto dest: gen_next_shape simp del: gen_next.simps)
    have full: "fst (last (?ob # obs1)) = None \<Longrightarrow> length obs1 = k"
      using pull_Continue_full [OF rest a1] by simp
    have isl: "list_islice m (Created inp) n h = Inr (?ob # obs1, g', h')"
      using isl0 first rest by (simp del: gen_next.simps)
    have acc: "accepts m inp (Some n) h =
                 Inr (case fst (last (?ob # obs1)) of
                        Some Accept \<Rightarrow> Some True
                      | Some Reject \<Rightarrow> Some False
                      | None \<Rightarrow> None)"
      unfolding accepts_def using isl
      by (simp del: gen_next.simps last.simps split: option.splits action.splits)
    have bound: "int (length (?ob # obs1)) \<le> n" using len n by simp
    have lim: "fst (last (?ob # obs1)) = None \<longrightarrow> int (length (?ob # obs1)) = n"
      using full n by auto
    have "\<exists>obs g' h'. list_islice m (Created inp) n h = Inr (obs, g', h')
            \<and> obs \<noteq> [] \<and> int (length obs) \<le> n
            \<and> accepts m inp (Some n) h =
                Inr (case fst (last obs) of
                       Some Accept \<Rightarrow> Some True
                     | Some Reject \<Rightarrow> Some False
                     | None \<Rightarrow> None)
            \<and> (fst (last obs) = None \<longrightarrow> int (length obs) = n)"
    proof (intro exI conjI)
      show "list_islice m (Created inp) n h = Inr (?ob # obs1, g', h')" by (rule isl)
      show "?ob # obs1 \<noteq> []" by simp
    qed (rule bound, rule acc, rule lim)
    then show ?thesis by (rule disjI1)
  qed
qed

lemma directions_ok_w_hash_w: "directions_ok w_hash_w"
  unfolding directions_ok_def w_hash_w_def TuringMachine_default_def TuringMachine_def
    w_hash_w_table_def
  by (auto split: if_splits)

lemma directions_ok_go_left: "directions_ok go_left"
  unfolding directions_ok_def go_left_def TuringMachine_default_def TuringMachine_def
    go_left_table_def
  by (auto split: if_splits)


lemma pull_observe_actions:
  "(case pull m n g h of Inl e \<Rightarrow> Inl e | Inr (obs, r) \<Rightarrow> Inr (map fst obs))
     = (case observe m n g h of Inl e \<Rightarrow> Inl e | Inr vs \<Rightarrow> Inr (map fst vs))"
proof (induction n arbitrary: g h)
  case 0
  show ?case by simp
next
  case (Suc n)
  show ?case
  proof (cases "gen_next m g h")
    case (Inl e)
    then show ?thesis by simp
  next
    case (Inr r)
    obtain x g1 h1 where r: "r = (x, g1, h1)" by (cases r) auto
    show ?thesis
    proof (cases x)
      case None
      with Inr r show ?thesis by simp
    next
      case (Some ob)
      obtain a d where ob: "ob = (a, d)" by (cases ob) auto
      from Suc.IH [of g1 h1] Inr r Some ob show ?thesis
        by (auto split: sum.splits)
    qed
  qed
qed

lemma pull_raises_iff: "pull m n g h = Inl e \<longleftrightarrow> observe m n g h = Inl e"
  using pull_observe_actions [of m n g h]
  by (cases "pull m n g h"; cases "observe m n g h") (auto simp del: pull.simps observe.simps)

lemma observe_pull_actions:
  assumes "observe m n g h = Inr vs"
  shows "\<exists>obs g' h'. pull m n g h = Inr (obs, g', h') \<and> map fst obs = map fst vs"
  using pull_observe_actions [of m n g h] assms
  by (cases "pull m n g h") (auto simp del: pull.simps observe.simps)

lemma resume_final_action:
  "(case resume m k c of
      Inl e \<Rightarrow> Inl e
    | Inr vs \<Rightarrow> Inr (last (states_to_actions m (state c) # map fst vs)))
     = final_action m k c"
proof (induction k arbitrary: c)
  case 0
  show ?case by simp
next
  case (Suc k)
  show ?case
  proof (cases "delta m c")
    case (Inl e)
    then show ?thesis by simp
  next
    case (Inr c')
    from Suc.IH [of c'] Inr show ?thesis
      by (auto split: sum.splits)
  qed
qed

lemma accepts_final_action:
  assumes "int (Suc k) \<le> sys_maxsize"
  shows "accepts m inp (Some (int (Suc k))) h =
     (case final_action m k (seed m inp) of
        Inl e \<Rightarrow> Inl e
      | Inr a \<Rightarrow> Inr (case a of Some x \<Rightarrow> Some (x = Accept) | None \<Rightarrow> None))"
proof -
  let ?g = "Created inp"
  have ob: "observe m (Suc k) ?g h =
     (case resume m k (seed m inp) of
        Inl e \<Rightarrow> Inl e
      | Inr vs \<Rightarrow> Inr ((states_to_actions m (start_state m), seed m inp) # vs))"
    by (rule observe_created)
  have st: "state (seed m inp) = start_state m" by (simp add: seed_def)
  have "\<not> (int (Suc k) < 0 \<or> sys_maxsize < int (Suc k))"
    using assms by linarith
  then have isl: "list_islice m ?g (int (Suc k)) h = pull m (Suc k) ?g h"
    by (simp only: list_islice_def nat_int if_False)
  have acc: "accepts m inp (Some (int (Suc k))) h =
     (case pull m (Suc k) ?g h of
        Inl e \<Rightarrow> Inl e
      | Inr (obs, _) \<Rightarrow>
          if obs = [] then Inl IndexError
          else (case fst (last obs) of
                  Some a \<Rightarrow> Inr (Some (a = Accept))
                | None \<Rightarrow> Inr None))"
    by (simp only: accepts_def Let_def option.case isl)
  show ?thesis
  proof (cases "resume m k (seed m inp)")
    case (Inl e)
    with ob have "observe m (Suc k) ?g h = Inl e" by simp
    then have "pull m (Suc k) ?g h = Inl e" by (simp only: pull_raises_iff)
    moreover from resume_final_action [where m = m and k = k and c = "seed m inp"] Inl
    have "final_action m k (seed m inp) = Inl e" by simp
    ultimately show ?thesis by (simp only: acc sum.case)
  next
    case (Inr vs)
    with ob have o: "observe m (Suc k) ?g h
                       = Inr ((states_to_actions m (start_state m), seed m inp) # vs)" by simp
    from observe_pull_actions [OF o] obtain obs g' h' where
      p: "pull m (Suc k) ?g h = Inr (obs, g', h')"
      and acts: "map fst obs = states_to_actions m (start_state m) # map fst vs"
      by auto
    from acts have ne: "obs \<noteq> []" by auto
    then have "fst (last obs) = last (map fst obs)" by (simp add: last_map)
    with acts have l: "fst (last obs) = last (states_to_actions m (start_state m) # map fst vs)"
      by simp
    from resume_final_action [where m = m and k = k and c = "seed m inp"] Inr st
    have "final_action m k (seed m inp)
            = Inr (last (states_to_actions m (start_state m) # map fst vs))" by simp
    with p ne l show ?thesis
      by (simp only: acc sum.case prod.case if_False) (simp split: option.splits)
  qed
qed

lemma go_left_seed:
  "seed go_left (Str '''') = \<lparr>state = ''q0'', left_hand_side = [''''], symbol = '''', right_hand_side = []\<rparr>"
  by (simp add: seed_def go_left_def TuringMachine_default_def TuringMachine_def)

lemma go_left_origin:
  "resume go_left n \<lparr>state = ''q0'', left_hand_side = [], symbol = '''', right_hand_side = ['''']\<rparr>
     = Inr (replicate n (None, \<lparr>state = ''q0'', left_hand_side = [], symbol = '''', right_hand_side = ['''']\<rparr>))"
  by (induction n)
     (simp_all add: delta_def transitions_get_def in_LR_def go_left_def go_left_table_def
        TuringMachine_default_def TuringMachine_def)

lemma go_left_resume:
  "resume go_left n \<lparr>state = ''q0'', left_hand_side = [''''], symbol = '''', right_hand_side = []\<rparr>
     = Inr (replicate n (None, \<lparr>state = ''q0'', left_hand_side = [], symbol = '''', right_hand_side = ['''']\<rparr>))"
proof (cases n)
  case 0
  then show ?thesis by simp
next
  case (Suc k)
  have "delta go_left \<lparr>state = ''q0'', left_hand_side = [''''], symbol = '''', right_hand_side = []\<rparr>
          = Inr \<lparr>state = ''q0'', left_hand_side = [], symbol = '''', right_hand_side = ['''']\<rparr>"
    by (simp add: delta_def transitions_get_def go_left_def go_left_table_def
          TuringMachine_default_def TuringMachine_def)
  moreover have "states_to_actions go_left ''q0'' = None"
    by (simp add: go_left_def TuringMachine_default_def TuringMachine_def)
  ultimately show ?thesis using Suc go_left_origin [of k] by simp
qed

lemma pull_resume_raises:
  "frame_ok m f \<Longrightarrow> resume m n (frame_config h f) = Inl e \<Longrightarrow> pull m n (Suspended f) h = Inl e"
  by (simp only: pull_raises_iff observe_resume)

lemma frame_config_snapshot:
  "frame_config h f = c \<Longrightarrow>
     snapshot_of f = \<lparr>snap_state = state c, snap_left = left_ref f,
                      snap_symbol = symbol c, snap_right = right_ref f\<rparr>"
  by (auto simp: frame_config_def snapshot_of_def)

lemma pull_resume_shares:
  assumes "frame_ok m f" and "resume m n (frame_config h f) = Inr vs"
  shows "\<exists>obs g' h'. pull m n (Suspended f) h = Inr (obs, g', h')
           \<and> list_all2 (shares (left_ref f) (right_ref f)) obs vs
           \<and> cells h' (left_ref f) = left_hand_side (last (frame_config h f # map snd vs))
           \<and> cells h' (right_ref f) = right_hand_side (last (frame_config h f # map snd vs))"
  using assms
proof (induction n arbitrary: f h vs)
  case 0
  then show ?case by (simp add: frame_config_def)
next
  case (Suc n)
  let ?c = "frame_config h f"
  have act: "cur_action f = states_to_actions m (state ?c)"
    using Suc.prems(1) by (simp add: frame_ok_def frame_config_def)
  show ?case
  proof (cases "cur_action f")
    case (Some a)
    with act have "states_to_actions m (state ?c) \<noteq> None" by (metis option.distinct(1))
    with Suc.prems(2) have "vs = []" by (simp split: if_splits)
    moreover from Some have "gen_next m (Suspended f) h = Inr (None, Closed, h)" by simp
    ultimately show ?thesis by (simp add: frame_config_def del: gen_next.simps)
  next
    case None
    with act have none: "states_to_actions m (state ?c) = None" by simp
    from Suc.prems(2) none obtain c vs' where
      d: "delta m ?c = Inr c" and r: "resume m n c = Inr vs'"
      and vs: "vs = (states_to_actions m (state c), c) # vs'"
      by (auto split: sum.splits)
    from gen_next_moves [OF Suc.prems(1) None d] obtain f' h1 where
      step: "gen_next m (Suspended f) h
               = Inr (Some (states_to_actions m (state c), snapshot_of f'), Suspended f', h1)"
      and ok: "frame_ok m f'" and cfg: "frame_config h1 f' = c"
      and l: "left_ref f' = left_ref f" and rr: "right_ref f' = right_ref f"
      by blast
    from Suc.IH [OF ok, of h1 vs'] r cfg obtain obs' g' h' where
      p: "pull m n (Suspended f') h1 = Inr (obs', g', h')"
      and sh: "list_all2 (shares (left_ref f) (right_ref f)) obs' vs'"
      and cl: "cells h' (left_ref f) = left_hand_side (last (c # map snd vs'))"
      and cr: "cells h' (right_ref f) = right_hand_side (last (c # map snd vs'))"
      by (auto simp: l rr)
    have first: "shares (left_ref f) (right_ref f)
                   (states_to_actions m (state c), snapshot_of f') (states_to_actions m (state c), c)"
      using frame_config_snapshot [OF cfg] by (simp add: shares_def l rr)
    from step p have "pull m (Suc n) (Suspended f) h
                        = Inr ((states_to_actions m (state c), snapshot_of f') # obs', g', h')"
      by (simp del: gen_next.simps)
    with sh first cl cr vs show ?thesis by (simp del: gen_next.simps)
  qed
qed

lemma shares_read:
  assumes "list_all2 (shares l r) obs vs"
  shows "map (\<lambda>(a, d). (a, read_config h d)) obs
           = map (\<lambda>(a, c). (a, c\<lparr>left_hand_side := cells h l, right_hand_side := cells h r\<rparr>)) vs"
  using assms
  by (induction rule: list_all2_induct) (auto simp: shares_def read_config_def)

lemma accepts_default_final_action:
  "accepts m inp None h =
     (case final_action m 99 (seed m inp) of
        Inl e \<Rightarrow> Inl e
      | Inr a \<Rightarrow> Inr (case a of Some x \<Rightarrow> Some (x = Accept) | None \<Rightarrow> None))"
proof -
  have limit: "int (Suc 99) \<le> sys_maxsize" by (simp add: sys_maxsize_def)
  have "accepts m inp None h = accepts m inp (Some (int (Suc 99))) h"
    by (simp add: accepts_def)
  then show ?thesis by (simp only: accepts_final_action [OF limit])
qed

lemma w_hash_w_blank_seed:
  "seed w_hash_w (Str '''') = blank_start"
  "seed w_hash_w (Seq []) = blank_start"
  "seed w_hash_w (Seq ['''']) = blank_start"
  by (simp_all add: seed_def blank_start_def w_hash_w_def TuringMachine_default_def
        TuringMachine_def)

lemma w_hash_w_no_blank_transition:
  "transitions w_hash_w (start_state w_hash_w, blank_symbol w_hash_w) = None"
  by (simp add: w_hash_w_def TuringMachine_default_def TuringMachine_def w_hash_w_table_def)

lemma w_hash_w_blank_resume:
  "resume w_hash_w (Suc 0) blank_start
     = Inr [(Some Reject,
             \<lparr>state = ''qr'', left_hand_side = ['''', ''''], symbol = '''',
              right_hand_side = []\<rparr>)]"
  by code_simp

lemma w_hash_w_blank_final: "final_action w_hash_w 99 blank_start = Inr (Some Reject)"
  by code_simp

lemma w_hash_w_start_action: "states_to_actions w_hash_w (start_state w_hash_w) = None"
  by (simp add: w_hash_w_def TuringMachine_default_def TuringMachine_def)

lemma w_hash_w_blank_input:
  assumes "seed w_hash_w inp = blank_start"
  shows "observe w_hash_w (Suc 0) (Created inp) h = Inr [(None, blank_start)]
         \<and> observe w_hash_w (Suc (Suc 0)) (Created inp) h
             = Inr [(None, blank_start),
                    (Some Reject,
                     \<lparr>state = ''qr'', left_hand_side = ['''', ''''], symbol = '''',
                      right_hand_side = []\<rparr>)]
         \<and> rejects w_hash_w inp None h = Inr (Some True)"
proof -
  have one: "observe w_hash_w (Suc 0) (Created inp) h = Inr [(None, blank_start)]"
    by (simp only: observe_created assms w_hash_w_start_action resume.simps sum.case)
  have two: "observe w_hash_w (Suc (Suc 0)) (Created inp) h
               = Inr [(None, blank_start),
                      (Some Reject,
                       \<lparr>state = ''qr'', left_hand_side = ['''', ''''], symbol = '''',
                        right_hand_side = []\<rparr>)]"
    by (simp only: observe_created assms w_hash_w_start_action w_hash_w_blank_resume sum.case)
  have "accepts w_hash_w inp None h = Inr (Some False)"
    by (simp only: accepts_default_final_action assms w_hash_w_blank_final) simp
  then have "rejects w_hash_w inp None h = Inr (Some True)"
    by (simp add: rejects_def)
  with one two show ?thesis by simp
qed


lemma w_hash_w_two_steps:
  "final_action w_hash_w 1 (seed w_hash_w (Str ''11110011001010#11110011001010'')) = Inr None"
  by code_simp

lemma w_hash_w_full_run:
  "final_action w_hash_w 999 (seed w_hash_w (Str ''11110011001010#11110011001010''))
     = Inr (Some Accept)"
  by code_simp

section \<open>The claims\<close>

text \<open>
  C1, as stated, fails: on the machine with the direction X the call with the step limit 5
  raises AssertionError instead of returning one of the three results, and on the w#w
  machine the step limit \<open>2\<^sup>6\<^sup>3\<close>, above \<^verbatim>\<open>sys.maxsize\<close>, raises ValueError.
\<close>

theorem accepts_raises_counterexample:
  "accepts wrong_direction (Seq []) (Some 5) empty_heap = Inl AssertionError
   \<and> accepts w_hash_w (Str ''1#1'') (Some 9223372036854775808) empty_heap = Inl ValueError"
  by code_simp

text \<open>
  C1, amended.  For every machine, every input and every step limit \<open>n\<close> with
  \<open>1 \<le> n \<le> sys.maxsize\<close>, \<^verbatim>\<open>accepts(input, step_limit=n)\<close> either pulls a non-empty
  list of at most \<open>n\<close> observations and returns the verdict of the last action pulled (True
  for Accept, False for Reject, None when the last action is None, which happens only when
  all \<open>n\<close> observations were pulled), or passes on the AssertionError of the run.  It
  returns whenever every direction of the table is L or R.  Without the argument the limit
  is 100.
\<close>

theorem accepts_bounded_three_valued:
  assumes "1 \<le> n" and "n \<le> sys_maxsize"
  shows "((\<exists>obs g' h'. list_islice m (Created inp) n h = Inr (obs, g', h')
             \<and> obs \<noteq> [] \<and> int (length obs) \<le> n
             \<and> accepts m inp (Some n) h =
                 Inr (case fst (last obs) of
                        Some Accept \<Rightarrow> Some True
                      | Some Reject \<Rightarrow> Some False
                      | None \<Rightarrow> None)
             \<and> (fst (last obs) = None \<longrightarrow> int (length obs) = n))
          \<or> (list_islice m (Created inp) n h = Inl AssertionError
              \<and> accepts m inp (Some n) h = Inl AssertionError))
         \<and> (directions_ok m \<longrightarrow>
              (\<exists>obs g' h'. list_islice m (Created inp) n h = Inr (obs, g', h')
                 \<and> obs \<noteq> [] \<and> int (length obs) \<le> n
                 \<and> accepts m inp (Some n) h =
                     Inr (case fst (last obs) of
                            Some Accept \<Rightarrow> Some True
                          | Some Reject \<Rightarrow> Some False
                          | None \<Rightarrow> None)
                 \<and> (fst (last obs) = None \<longrightarrow> int (length obs) = n)))
         \<and> accepts m inp None h = accepts m inp (Some 100) h"
proof -
  have shape: "\<And>A B C D. A \<or> (B \<and> C \<and> \<not> D) \<Longrightarrow> (A \<or> (B \<and> C)) \<and> (D \<longrightarrow> A)"
    by blast
  have dflt: "accepts m inp None h = accepts m inp (Some 100) h"
    by (simp add: accepts_def)
  note both = shape [OF accepts_run [OF assms, of m inp h]]
  show ?thesis
    by (rule conjI [OF conjunct1 [OF both] conjI [OF conjunct2 [OF both] dflt]])
qed

theorem accepts_bounded_three_valued_witness:
  "(1::int) \<le> 2 \<and> 2 \<le> sys_maxsize \<and> directions_ok w_hash_w
   \<and> (\<exists>obs g' h'. list_islice w_hash_w (Created (Str ''1#1'')) 2 empty_heap = Inr (obs, g', h')
            \<and> obs \<noteq> [] \<and> int (length obs) \<le> 2
            \<and> accepts w_hash_w (Str ''1#1'') (Some 2) empty_heap =
                Inr (case fst (last obs) of
                       Some Accept \<Rightarrow> Some True
                     | Some Reject \<Rightarrow> Some False
                     | None \<Rightarrow> None)
            \<and> (fst (last obs) = None \<longrightarrow> int (length obs) = 2))
   \<and> accepts w_hash_w (Str ''1#1'') None empty_heap
       = accepts w_hash_w (Str ''1#1'') (Some 100) empty_heap"
proof -
  have low: "(1::int) \<le> 2" by simp
  have high: "2 \<le> sys_maxsize" by (simp add: sys_maxsize_def)
  from accepts_bounded_three_valued [OF low high, of w_hash_w "Str ''1#1''" empty_heap]
    directions_ok_w_hash_w low high
  show ?thesis by blast
qed

text \<open>
  C2.  When the pair of the current state and symbol is absent from the table, the lookup
  gives (reject_state, symbol, R), and the step raises nothing: the next observation is in
  the reject state, the unchanged symbol has been pushed on the left and the head has moved
  right (onto the next cell of the right side, or a blank when there is none).
\<close>

theorem missing_transition_goes_to_reject:
  assumes "transitions m (cur_state f, cur_symbol f) = None"
    and "cur_action f = None"
    and "left_ref f \<noteq> right_ref f"
  shows "transitions_get m (cur_state f) (cur_symbol f) = (reject_state m, cur_symbol f, ''R'')
         \<and> (\<exists>d g' h'. gen_next m (Suspended f) h
                          = Inr (Some (states_to_actions m (reject_state m), d), g', h')
               \<and> read_config h' d =
                   \<lparr>state = reject_state m,
                    left_hand_side = cur_symbol f # cells h (left_ref f),
                    symbol = (case cells h (right_ref f) of
                                [] \<Rightarrow> blank_symbol m | x # _ \<Rightarrow> x),
                    right_hand_side = (case cells h (right_ref f) of
                                         [] \<Rightarrow> [] | _ # xs \<Rightarrow> xs)\<rparr>)"
  using assms
  by (auto simp: transitions_get_def loop_head_Inr insert0_def pop0_def read_config_def
           split: list.splits)



theorem missing_transition_goes_to_reject_witness:
  "transitions w_hash_w (''q0'', '''') = None
   \<and> transitions_get w_hash_w ''q0'' '''' = (reject_state w_hash_w, '''', ''R'')
   \<and> (\<exists>d g' h'. gen_next w_hash_w
                     (Suspended \<lparr>cur_state = ''q0'', left_ref = 0, cur_symbol = '''',
                                 right_ref = 1, cur_action = None\<rparr>) empty_heap
                    = Inr (Some (states_to_actions w_hash_w (reject_state w_hash_w), d), g', h')
         \<and> state (read_config h' d) = reject_state w_hash_w
         \<and> left_hand_side (read_config h' d) = [''''])"
proof -
  let ?f = "\<lparr>cur_state = ''q0'', left_ref = 0, cur_symbol = '''', right_ref = 1,
             cur_action = None\<rparr>"
  have absent: "transitions w_hash_w (cur_state ?f, cur_symbol ?f) = None"
    by (simp add: w_hash_w_def TuringMachine_default_def TuringMachine_def w_hash_w_table_def)
  have act: "cur_action ?f = None" by simp
  have refs: "left_ref ?f \<noteq> right_ref ?f" by simp
  from missing_transition_goes_to_reject [OF absent act refs, of empty_heap] absent
  show ?thesis by (auto simp: empty_heap_def)
qed

text \<open>
  C3.  The machine whose only transition is (q0, blank) to (q0, blank, L), run on the empty
  input: the first observation is q0 with left [blank], symbol blank, right []; every later
  observation, however many are pulled, is q0 with left [], symbol blank, right [blank].
  The left move at the origin raises nothing and the run goes on.
\<close>

theorem go_left_stays_at_origin:
  "observe go_left (Suc n) (Created (Str '''')) h =
     Inr ((None, \<lparr>state = ''q0'', left_hand_side = [''''], symbol = '''', right_hand_side = []\<rparr>)
          # replicate n
              (None, \<lparr>state = ''q0'', left_hand_side = [], symbol = '''', right_hand_side = ['''']\<rparr>))"
proof -
  have "states_to_actions go_left (start_state go_left) = None"
    by (simp add: go_left_def TuringMachine_default_def TuringMachine_def)
  then show ?thesis
    by (simp only: observe_created go_left_seed go_left_resume sum.case)
qed

text \<open>
  C4, as stated, fails: the machine with the table (q0, blank) to (q0, blank, X) is
  constructed, its first two observations are produced, and the third pull raises
  AssertionError in the middle of the run.
\<close>

theorem wrong_direction_raises_mid_run:
  "transitions wrong_direction (''q0'', '''') = Some (''q0'', '''', ''X'')
   \<and> observe wrong_direction 2 (Created (Str '''')) empty_heap =
       Inr [(None, \<lparr>state = ''q0'', left_hand_side = [''''], symbol = '''', right_hand_side = []\<rparr>),
            (None, \<lparr>state = ''q0'', left_hand_side = [], symbol = '''', right_hand_side = ['''']\<rparr>)]
   \<and> observe wrong_direction 3 (Created (Str '''')) empty_heap = Inl AssertionError
   \<and> accepts wrong_direction (Str '''') (Some 3) empty_heap = Inl AssertionError"
  by code_simp

text \<open>
  C4, amended.  Constructing a machine never fails and validates nothing: every table, also
  one with a direction outside L and R, is stored unchanged.  A malformed direction comes up
  only at execution time: the first observation of a run is always yielded, and whenever a
  later step raises, it raises AssertionError while applying a table entry whose direction
  is neither L nor R; so a run that raises has yielded observations before, and its table
  holds such a direction.
\<close>

theorem direction_unchecked_until_run:
  "transitions (TuringMachine table q0 qa qr b) = table
   \<and> (\<exists>ob g' h'. gen_next m (Created inp) h = Inr (Some ob, g', h'))
   \<and> (gen_next m (Suspended f) h1 = Inl e1 \<longrightarrow>
        e1 = AssertionError
        \<and> (\<exists>q s d. transitions m (cur_state f, cur_symbol f) = Some (q, s, d)
              \<and> d \<noteq> ''L'' \<and> d \<noteq> ''R''))
   \<and> (pull m n (Created inp) h = Inl e2 \<longrightarrow>
        e2 = AssertionError \<and> \<not> directions_ok m \<and> 2 \<le> n)"
proof -
  have stored: "transitions (TuringMachine table q0 qa qr b) = table"
    by (simp add: TuringMachine_def)
  from gen_next_created [of m inp h]
  have first: "\<exists>ob g' h'. gen_next m (Created inp) h = Inr (Some ob, g', h')" by blast
  have step: "gen_next m (Suspended f) h1 = Inl e1 \<longrightarrow>
        e1 = AssertionError
        \<and> (\<exists>q s d. transitions m (cur_state f, cur_symbol f) = Some (q, s, d)
              \<and> d \<noteq> ''L'' \<and> d \<noteq> ''R'')"
    by (auto dest!: gen_next_error simp del: gen_next.simps)
  have run: "pull m n (Created inp) h = Inl e2 \<longrightarrow>
        e2 = AssertionError \<and> \<not> directions_ok m \<and> 2 \<le> n"
    using pull_error [of m n "Created inp" h e2] pull_error_late [of m n inp h e2] by blast
  from stored first step run show ?thesis by (intro conjI)
qed

theorem direction_unchecked_until_run_witness:
  "gen_next wrong_direction
     (Suspended \<lparr>cur_state = ''q0'', left_ref = 0, cur_symbol = '''', right_ref = 1,
                 cur_action = None\<rparr>)
     \<lparr>cells = (\<lambda>_. [])(1 := ['''']), fresh = 2\<rparr> = Inl AssertionError
   \<and> pull wrong_direction 3 (Created (Str '''')) empty_heap = Inl AssertionError
   \<and> (\<exists>q s d. transitions wrong_direction (''q0'', '''') = Some (q, s, d)
         \<and> d \<noteq> ''L'' \<and> d \<noteq> ''R'')
   \<and> \<not> directions_ok wrong_direction \<and> (2::nat) \<le> 3"
proof -
  let ?f = "\<lparr>cur_state = ''q0'', left_ref = 0, cur_symbol = '''', right_ref = 1,
             cur_action = None\<rparr>"
  let ?h = "\<lparr>cells = (\<lambda>_. [])(1 := ['''']), fresh = 2\<rparr>"
  have step: "gen_next wrong_direction (Suspended ?f) ?h = Inl AssertionError"
    by (simp add: wrong_direction_def wrong_direction_table_def TuringMachine_default_def
          TuringMachine_def transitions_get_def in_LR_def)
  have "observe wrong_direction 3 (Created (Str '''')) empty_heap = Inl AssertionError"
    by code_simp
  then have run: "pull wrong_direction 3 (Created (Str '''')) empty_heap = Inl AssertionError"
    by (simp only: pull_raises_iff)
  from direction_unchecked_until_run
         [where m = wrong_direction and f = ?f and ?h1.0 = ?h and ?e1.0 = AssertionError
            and n = 3 and inp = "Str ''''" and h = empty_heap and ?e2.0 = AssertionError]
    step run
  show ?thesis by simp
qed

text \<open>
  C5.  For every machine, input and step limit, \<^verbatim>\<open>accepts\<close> and
  \<^verbatim>\<open>rejects\<close> are never both True; \<^verbatim>\<open>rejects\<close> is True exactly
  when \<^verbatim>\<open>accepts\<close> is False, False exactly when it is True, and None exactly when
  it is None; an exception of \<^verbatim>\<open>accepts\<close> passes through unchanged.
\<close>

theorem rejects_mirrors_accepts:
  "\<not> (accepts m inp lim h = Inr (Some True) \<and> rejects m inp lim h = Inr (Some True))
   \<and> (rejects m inp lim h = Inr (Some True)) = (accepts m inp lim h = Inr (Some False))
   \<and> (rejects m inp lim h = Inr (Some False)) = (accepts m inp lim h = Inr (Some True))
   \<and> (rejects m inp lim h = Inr None) = (accepts m inp lim h = Inr None)
   \<and> (\<forall>e. (rejects m inp lim h = Inl e) = (accepts m inp lim h = Inl e))"
  by (auto simp: rejects_def split: sum.splits option.splits)

text \<open>
  C6.  For the w#w machine with the default states and blank, the empty string, the empty
  list and the list holding one empty string are all seeded as state q0, left [blank],
  symbol blank, right []; the table has no transition from the start state on the blank, so
  the second observation is already in the reject state, and \<^verbatim>\<open>rejects\<close> with the
  default step limit returns True on each of them.
\<close>

theorem w_hash_w_rejects_blank_input:
  "transitions w_hash_w (start_state w_hash_w, blank_symbol w_hash_w) = None
   \<and> observe w_hash_w 1 (Created (Str '''')) h
       = Inr [(None, \<lparr>state = ''q0'', left_hand_side = [''''], symbol = '''', right_hand_side = []\<rparr>)]
   \<and> observe w_hash_w 1 (Created (Seq [])) h
       = Inr [(None, \<lparr>state = ''q0'', left_hand_side = [''''], symbol = '''', right_hand_side = []\<rparr>)]
   \<and> observe w_hash_w 1 (Created (Seq [''''])) h
       = Inr [(None, \<lparr>state = ''q0'', left_hand_side = [''''], symbol = '''', right_hand_side = []\<rparr>)]
   \<and> observe w_hash_w (Suc (Suc 0)) (Created (Str '''')) h
       = Inr [(None, \<lparr>state = ''q0'', left_hand_side = [''''], symbol = '''', right_hand_side = []\<rparr>),
              (Some Reject, \<lparr>state = ''qr'', left_hand_side = ['''', ''''], symbol = '''', right_hand_side = []\<rparr>)]
   \<and> rejects w_hash_w (Str '''') None h = Inr (Some True)
   \<and> rejects w_hash_w (Seq []) None h = Inr (Some True)
   \<and> rejects w_hash_w (Seq ['''']) None h = Inr (Some True)"
  using w_hash_w_blank_input [OF w_hash_w_blank_seed(1), of h]
    w_hash_w_blank_input [OF w_hash_w_blank_seed(2), of h]
    w_hash_w_blank_input [OF w_hash_w_blank_seed(3), of h]
    w_hash_w_no_blank_transition
  by (simp add: blank_start_def)

text \<open>
  C7.  For the w#w machine, \<^verbatim>\<open>accepts\<close> on 11110011001010#11110011001010 returns
  True with the step limit 1000 and None with the step limit 2.
\<close>

theorem w_hash_w_accepts_within_limit:
  "accepts w_hash_w (Str ''11110011001010#11110011001010'') (Some 1000) h = Inr (Some True)
   \<and> accepts w_hash_w (Str ''11110011001010#11110011001010'') (Some 2) h = Inr None"
proof -
  have long: "(1000::int) = int (Suc 999)" by simp
  have short: "(2::int) = int (Suc 1)" by simp
  have long_ok: "int (Suc 999) \<le> sys_maxsize" by (simp add: sys_maxsize_def)
  have short_ok: "int (Suc 1) \<le> sys_maxsize" by (simp add: sys_maxsize_def)
  have "accepts w_hash_w (Str ''11110011001010#11110011001010'') (Some 1000) h
          = Inr (Some True)"
    by (simp only: long accepts_final_action [OF long_ok] w_hash_w_full_run) simp
  moreover
  have "accepts w_hash_w (Str ''11110011001010#11110011001010'') (Some 2) h = Inr None"
    by (simp only: short accepts_final_action [OF short_ok] w_hash_w_two_steps) simp
  ultimately show ?thesis by (rule conjI)
qed

text \<open>
  C8, as stated, fails: the snapshot yielded first by the w#w machine on the empty input
  showed left = [blank] when it was yielded and shows left = [blank, blank] when it is read
  again after the second pull.
\<close>

theorem snapshot_mutated_counterexample:
  "observe w_hash_w 2 (Created (Str '''')) empty_heap =
     Inr [(None, \<lparr>state = ''q0'', left_hand_side = [''''], symbol = '''', right_hand_side = []\<rparr>),
          (Some Reject, \<lparr>state = ''qr'', left_hand_side = ['''', ''''], symbol = '''', right_hand_side = []\<rparr>)]
   \<and> reread w_hash_w 2 (Created (Str '''')) empty_heap =
     Inr [(None, \<lparr>state = ''q0'', left_hand_side = ['''', ''''], symbol = '''', right_hand_side = []\<rparr>),
          (Some Reject, \<lparr>state = ''qr'', left_hand_side = ['''', ''''], symbol = '''', right_hand_side = []\<rparr>)]
   \<and> reread w_hash_w 2 (Created (Str '''')) empty_heap
       \<noteq> observe w_hash_w 2 (Created (Str '''')) empty_heap"
  by code_simp

text \<open>
  C8, amended.  Each yielded dict is a new dict whose state and symbol never change, but its
  \<^verbatim>\<open>left_hand_side\<close> and \<^verbatim>\<open>right_hand_side\<close> are the run's own two list
  objects, shared by all snapshots of the run and changed in place by later steps: read
  after \<open>n\<close> pulls, every snapshot shows its own state and symbol and the two sides of
  the latest observation.
\<close>

theorem snapshots_share_the_tape_lists:
  "reread m n (Created inp) h =
     (case observe m n (Created inp) h of
        Inl e \<Rightarrow> Inl e
      | Inr vs \<Rightarrow> Inr (latest_sides vs))"
proof (cases n)
  case 0
  then show ?thesis by (simp add: reread_def latest_sides_def)
next
  case (Suc k)
  let ?a = "states_to_actions m (start_state m)"
  from gen_next_created [of m inp h] obtain f1 h1 where
    first: "gen_next m (Created inp) h = Inr (Some (?a, snapshot_of f1), Suspended f1, h1)"
    and ok: "frame_ok m f1" and cfg: "frame_config h1 f1 = seed m inp"
    by blast
  have ob: "observe m n (Created inp) h =
     (case resume m k (seed m inp) of
        Inl e \<Rightarrow> Inl e
      | Inr vs \<Rightarrow> Inr ((?a, seed m inp) # vs))"
    unfolding Suc by (rule observe_created)
  show ?thesis
  proof (cases "resume m k (seed m inp)")
    case (Inl e)
    with pull_resume_raises [OF ok, of k h1 e] cfg
    have "pull m k (Suspended f1) h1 = Inl e" by simp
    with first have "pull m n (Created inp) h = Inl e"
      unfolding Suc by (simp del: gen_next.simps)
    with ob Inl show ?thesis by (simp add: reread_def)
  next
    case (Inr vs)
    let ?l = "left_ref f1" and ?r = "right_ref f1"
    from pull_resume_shares [OF ok, of k h1 vs] cfg Inr obtain obs g' h' where
      p: "pull m k (Suspended f1) h1 = Inr (obs, g', h')"
      and sh: "list_all2 (shares ?l ?r) obs vs"
      and cl: "cells h' ?l = left_hand_side (last (seed m inp # map snd vs))"
      and cr: "cells h' ?r = right_hand_side (last (seed m inp # map snd vs))"
      by auto
    have sh0: "shares ?l ?r (?a, snapshot_of f1) (?a, seed m inp)"
      using frame_config_snapshot [OF cfg] by (simp add: shares_def)
    with sh have all: "list_all2 (shares ?l ?r) ((?a, snapshot_of f1) # obs) ((?a, seed m inp) # vs)"
      by simp
    have lst: "snd (last ((?a, seed m inp) # vs)) = last (seed m inp # map snd vs)"
      by (simp add: last_map)
    from first p have "pull m n (Created inp) h = Inr ((?a, snapshot_of f1) # obs, g', h')"
      unfolding Suc by (simp del: gen_next.simps)
    then have "reread m n (Created inp) h
                 = Inr (map (\<lambda>(a, d). (a, read_config h' d)) ((?a, snapshot_of f1) # obs))"
      by (simp add: reread_def)
    also have "\<dots> = Inr (latest_sides ((?a, seed m inp) # vs))"
      unfolding latest_sides_def lst shares_read [OF all, of h'] cl cr ..
    finally show ?thesis using ob Inr by simp
  qed
qed

text \<open>
  C9.  \<^verbatim>\<open>run\<close> is deterministic: the observations (action and configuration as
  read when yielded) of the same machine on the same input with the same number of pulls
  are the same in any two runs, whatever the store each run starts in.
\<close>

theorem run_deterministic:
  "observe m n (Created inp) h = observe m n (Created inp) h'"
proof (cases n)
  case 0
  then show ?thesis by simp
next
  case (Suc k)
  then show ?thesis by (simp only: observe_created)
qed

text \<open>
  C10, as stated, fails: on the machine with the direction X and the empty input, the step
  limit 4 makes both \<^verbatim>\<open>accepts\<close> and \<^verbatim>\<open>rejects\<close> raise AssertionError, and the
  step limit \<open>2\<^sup>6\<^sup>3\<close> makes \<^verbatim>\<open>rejects\<close> raise ValueError on the go-left machine.
\<close>

theorem positive_limit_raises_counterexample:
  "accepts wrong_direction (Str '''') (Some 4) empty_heap = Inl AssertionError
   \<and> rejects wrong_direction (Str '''') (Some 4) empty_heap = Inl AssertionError
   \<and> rejects go_left (Str '''') (Some 9223372036854775808) empty_heap = Inl ValueError"
  by code_simp

text \<open>
  C10, amended.  For every machine and input the run yields a first observation, so for a
  step limit \<open>n\<close> with \<open>1 \<le> n \<le> sys.maxsize\<close> the list of pulled observations is not
  empty and taking its last element succeeds: \<^verbatim>\<open>accepts\<close> and \<^verbatim>\<open>rejects\<close>
  return a result unless the run raises AssertionError, and they always return when every
  direction of the table is L or R.  With the limit 0 both raise IndexError.
\<close>

theorem accepts_needs_positive_limit:
  assumes "1 \<le> n" and "n \<le> sys_maxsize"
  shows "(\<exists>ob g' h'. gen_next m (Created inp) h = Inr (Some ob, g', h'))
         \<and> ((\<exists>b. accepts m inp (Some n) h = Inr b)
              \<or> accepts m inp (Some n) h = Inl AssertionError)
         \<and> ((\<exists>b. rejects m inp (Some n) h = Inr b)
              \<or> rejects m inp (Some n) h = Inl AssertionError)
         \<and> (directions_ok m \<longrightarrow>
              (\<exists>b. accepts m inp (Some n) h = Inr b) \<and> (\<exists>b. rejects m inp (Some n) h = Inr b))
         \<and> accepts m inp (Some 0) h = Inl IndexError
         \<and> rejects m inp (Some 0) h = Inl IndexError"
proof -
  from gen_next_created [of m inp h]
  have first: "\<exists>ob g' h'. gen_next m (Created inp) h = Inr (Some ob, g', h')" by blast
  from accepts_run [OF assms, of m inp h]
  have acc: "(\<exists>b. accepts m inp (Some n) h = Inr b)
             \<or> (accepts m inp (Some n) h = Inl AssertionError \<and> \<not> directions_ok m)"
    by blast
  then have rej: "(\<exists>b. rejects m inp (Some n) h = Inr b)
             \<or> (rejects m inp (Some n) h = Inl AssertionError \<and> \<not> directions_ok m)"
    by (auto simp: rejects_def split: option.splits)
  have zero: "accepts m inp (Some 0) h = Inl IndexError"
    by (simp add: accepts_def list_islice_def sys_maxsize_def)
  then have zero': "rejects m inp (Some 0) h = Inl IndexError" by (simp add: rejects_def)
  from first acc rej zero zero' show ?thesis by blast
qed

theorem accepts_needs_positive_limit_witness:
  "(1::int) \<le> 1 \<and> 1 \<le> sys_maxsize \<and> directions_ok go_left
   \<and> (\<exists>ob g' h'. gen_next go_left (Created (Str '''')) empty_heap = Inr (Some ob, g', h'))
   \<and> (\<exists>b. accepts go_left (Str '''') (Some 1) empty_heap = Inr b)
   \<and> (\<exists>b. rejects go_left (Str '''') (Some 1) empty_heap = Inr b)
   \<and> accepts go_left (Str '''') (Some 0) empty_heap = Inl IndexError
   \<and> rejects go_left (Str '''') (Some 0) empty_heap = Inl IndexError"
proof -
  have low: "(1::int) \<le> 1" by simp
  have high: "1 \<le> sys_maxsize" by (simp add: sys_maxsize_def)
  from accepts_needs_positive_limit [OF low high, of go_left "Str ''''" empty_heap]
    directions_ok_go_left low high
  show ?thesis by blast
qed

end
